theory Spec2Isabelle
  imports Main
begin

section \<open>The page script \<open>src/index.ts\<close> as an event-driven state machine\<close>

text \<open>
  The program is one top-level script. It runs once from top to bottom (\<open>main\<close>), registers
  callbacks, and from then on only its callbacks run, one at a time, whenever the browser
  or a library fires an event (single-threaded JavaScript). The model keeps the page's
  state in a record, logs every call into a library in \<open>trace\<close>, and runs one callback per
  event (\<open>step\<close>). Calls into the libraries are assumed to return.
\<close>

subsection \<open>Data\<close>

datatype error = Error string

text \<open>Calls that the script makes into the browser and the libraries.\<close>

datatype action =
    BrowserIncompatibleUI
  | CreateLoadingManager
  | CreateRenderer
  | CreateScene
  | SetSize
  | CreateCamera
  | PermissionRequestUI
  | CameraStart
  | PermissionDeniedUI
  | GlContextSet
  | LoadFaceTracker
  | CreateFaceAnchorGroup
  | LoadFaceMesh
  | LoadTexture
  | AddLights
  | CreateVideoRecorder
  | SetButtonText string
  | RecorderStart
  | RecorderStop
  | AsDataURL
  | WebGlSnapshot
  | UpdateFrame
  | UpdateGeometry
  | RenderScene
  | RequestAnimationFrame

text \<open>Callbacks that the script registers.\<close>

datatype handler = OnResize | OnVisible | OnNotVisible | OnStart | OnComplete | OnClick

text \<open>Objects of the scene graph.\<close>

datatype obj = FaceTrackerGroup | FaceMeshMesh | DirectionalLight | AmbientLight

text \<open>What one call of \<open>renderer.render\<close> leaves on the canvas: the objects drawn and the
  vertex positions of the face geometry at that moment.\<close>

record 'a frame =
  drawn :: "obj list"
  vertices :: "'a list"

datatype session_state = Idle | Recording

text \<open>Modelled from the spec: the video recorder of \<open>@zappar/video-recorder\<close>, whose code is
  not in the repository. The spec gives it a session that is idle or recording, \<open>start\<close> and
  \<open>stop\<close> that return at once, and the events \<open>onStart\<close> and \<open>onComplete\<close> that are delivered
  later; the pending counters hold the events emitted and not yet delivered.\<close>

record 'a recorder =
  session :: session_state
  onStart_pending :: nat
  onComplete_pending :: nat
  captured :: "'a frame list"

record 'a world =
  trace :: "action list"
  bound :: "handler set"
  permission_pending :: bool
  recorder_pending :: bool
  dataurl_pending :: nat
  raf_pending :: nat
  scene_children :: "obj list"
  group_children :: "obj list"
  group_visible :: "bool option"
  landmarks :: "'a list"
  positions :: "'a list"
  surface :: "'a frame option"
  recording :: "bool option"
  recorder :: "'a recorder"

text \<open>
  \<^item> \<open>permission_pending\<close>, \<open>recorder_pending\<close>, \<open>dataurl_pending\<close>: promises awaited and not yet
    resolved (\<open>permissionRequestUI()\<close>, \<open>createCanvasVideoRecorder\<close>, \<open>result.asDataURL()\<close>);
  \<^item> \<open>raf_pending\<close>: callbacks handed to \<open>requestAnimationFrame\<close> and not yet run;
  \<^item> \<open>group_visible\<close>: \<open>faceTrackerGroup.visible\<close>, \<open>None\<close> while the group does not exist;
  \<^item> \<open>landmarks\<close>: the tracker's latest published sample; \<open>positions\<close>: the vertex positions of
    \<open>faceBufferGeometry\<close>; the point type \<open>'a\<close> is left open, no arithmetic is done on it;
  \<^item> \<open>recording\<close>: the local \<open>let recording\<close> of \<open>initRecorder\<close>, \<open>None\<close> before its declaration.
\<close>

text \<open>What can happen after the script has run: the permission promise resolves with the
  user's answer, the browser repaints, resizes or delivers a click, the face tracker fires
  \<open>onVisible\<close> or \<open>onNotVisible\<close>, the recorder promise or the data-URL promise resolves, the
  recorder fires \<open>onStart\<close> or \<open>onComplete\<close>. Two events are the libraries' own work, taken
  from the spec: the tracker publishes a new landmark set as a whole, and the recorder
  samples the canvas while it records.\<close>

datatype 'a event =
    PermissionAnswered bool
  | AnimationFrame
  | WindowResized
  | FaceBecameVisible
  | FaceBecameNotVisible
  | TrackerPublished "'a list"
  | RecorderCreated
  | Clicked
  | RecorderStarted
  | RecorderCompleted
  | DataURLResolved
  | RecorderSampled

subsection \<open>The libraries\<close>

definition call :: "action \<Rightarrow> 'a world \<Rightarrow> 'a world" where
  "call a w = w\<lparr>trace := trace w @ [a]\<rparr>"

definition bind_handler :: "handler \<Rightarrow> 'a world \<Rightarrow> 'a world" where
  "bind_handler h w = w\<lparr>bound := insert h (bound w)\<rparr>"

text \<open>Modelled from the spec: the Mesh Deformer \<open>FaceBufferGeometry.updateFromFaceAnchorGroup\<close>
  of \<open>@zappar/zappar-threejs\<close>, whose code is not in the repository. For each index of the
  landmark set it writes the vertex position from the landmark's coordinate, one to one, so
  that the vertex count is the landmark count; the second argument is the old buffer.\<close>

primrec updateFromFaceAnchorGroup :: "'a list \<Rightarrow> 'a list \<Rightarrow> 'a list" where
  "updateFromFaceAnchorGroup [] buf = []"
| "updateFromFaceAnchorGroup (p # ps) buf = p # updateFromFaceAnchorGroup ps (tl buf)"

text \<open>Modelled from the spec: \<open>start\<close> when already recording is a no-op, \<open>stop\<close> when idle is a
  no-op; a session is created on start and finalized on stop.\<close>

definition recorder_start :: "'a recorder \<Rightarrow> 'a recorder" where
  "recorder_start r =
     (if session r = Recording then r
      else r\<lparr>session := Recording, onStart_pending := Suc (onStart_pending r), captured := []\<rparr>)"

definition recorder_stop :: "'a recorder \<Rightarrow> 'a recorder" where
  "recorder_stop r =
     (if session r = Idle then r
      else r\<lparr>session := Idle, onComplete_pending := Suc (onComplete_pending r)\<rparr>)"

text \<open>The three.js renderer draws the children of the scene; an object whose \<open>visible\<close> flag
  is false is skipped together with its children.\<close>

definition drawn_objects :: "'a world \<Rightarrow> obj list" where
  "drawn_objects w =
     concat (map (\<lambda>ob. if ob = FaceTrackerGroup
                        then (if group_visible w = Some True then ob # group_children w else [])
                        else [ob])
                 (scene_children w))"

subsection \<open>The functions of the script\<close>

text \<open>\<open>render\<close>, lines 167 to 181.\<close>

definition render :: "'a world \<Rightarrow> 'a world" where
  "render w0 =
     (let w1 = call UpdateFrame w0;
          w2 = (call UpdateGeometry w1)
                 \<lparr>positions := updateFromFaceAnchorGroup (landmarks w1) (positions w1)\<rparr>;
          w3 = (call RenderScene w2)
                 \<lparr>surface := Some \<lparr>drawn = drawn_objects w2, vertices = positions w2\<rparr>\<rparr>;
          w4 = (call RequestAnimationFrame w3)\<lparr>raf_pending := Suc (raf_pending w3)\<rparr>
      in w4)"

text \<open>The callback of \<open>permissionRequestUI().then\<close>, lines 49 to 54.\<close>

definition permission_then :: "bool \<Rightarrow> 'a world \<Rightarrow> 'a world" where
  "permission_then granted w = (if granted then call CameraStart w else call PermissionDeniedUI w)"

text \<open>The visibility callbacks, lines 125 and 126.\<close>

definition onVisible_handler :: "'a world \<Rightarrow> 'a world" where
  "onVisible_handler w = w\<lparr>group_visible := Some True\<rparr>"

definition onNotVisible_handler :: "'a world \<Rightarrow> 'a world" where
  "onNotVisible_handler w = w\<lparr>group_visible := Some False\<rparr>"

text \<open>The resize listener, lines 40 to 42.\<close>

definition resize_handler :: "'a world \<Rightarrow> 'a world" where
  "resize_handler w = call SetSize w"

text \<open>\<open>initRecorder\<close>, lines 131 to 162: up to its \<open>await\<close>, and from the \<open>await\<close> on.\<close>

definition initRecorder :: "'a world \<Rightarrow> 'a world" where
  "initRecorder w = (call CreateVideoRecorder w)\<lparr>recorder_pending := True\<rparr>"

definition initRecorder_resume :: "'a world \<Rightarrow> 'a world" where
  "initRecorder_resume w =
     bind_handler OnClick (bind_handler OnComplete (bind_handler OnStart
       (w\<lparr>recording := Some False\<rparr>)))"

text \<open>The recorder callbacks, lines 138 to 152; \<open>onComplete\<close> stops at its \<open>await\<close> after it
  has called \<open>asDataURL\<close>, and goes on when the data URL is there.\<close>

definition onStart_handler :: "'a world \<Rightarrow> 'a world" where
  "onStart_handler w = call (SetButtonText ''TAP TO STOP RECORDING'') (w\<lparr>recording := Some True\<rparr>)"

definition onComplete_handler :: "'a world \<Rightarrow> 'a world" where
  "onComplete_handler w =
     (call AsDataURL (call (SetButtonText ''TAP TO START RECORDING'') w))
       \<lparr>dataurl_pending := Suc (dataurl_pending w)\<rparr>"

definition onComplete_resume :: "'a world \<Rightarrow> 'a world" where
  "onComplete_resume w = (call WebGlSnapshot w)\<lparr>recording := Some False\<rparr>"

text \<open>The click listener, lines 155 to 161.\<close>

definition click_handler :: "'a world \<Rightarrow> 'a world" where
  "click_handler w =
     (if recording w = Some True
      then (call RecorderStop w)\<lparr>recorder := recorder_stop (recorder w)\<rparr>
      else (call RecorderStart w)\<lparr>recorder := recorder_start (recorder w)\<rparr>)"

text \<open>The page before the script runs.\<close>

definition init_page :: "'a world" where
  "init_page =
     \<lparr>trace = [], bound = {}, permission_pending = False, recorder_pending = False,
      dataurl_pending = 0, raf_pending = 0, scene_children = [], group_children = [],
      group_visible = None, landmarks = [], positions = [], surface = None,
      recording = None,
      recorder = \<lparr>session = Idle, onStart_pending = 0, onComplete_pending = 0, captured = []\<rparr>\<rparr>"

text \<open>Lines 31 to 129: renderer, scene, camera, permission request, tracker, face mesh,
  lights and visibility callbacks. A new three.js object has \<open>visible = true\<close>; the line that
  would hide the group at the start (line 72) is commented out in the source.\<close>

definition setup_scene :: "'a world \<Rightarrow> 'a world" where
  "setup_scene w0 =
     (let w1 = call CreateLoadingManager w0;
          w2 = call CreateScene (call CreateRenderer w1);
          w3 = bind_handler OnResize (call SetSize w2);
          w4 = call CreateCamera w3;
          w5 = (call PermissionRequestUI w4)\<lparr>permission_pending := True\<rparr>;
          w6 = call GlContextSet w5;
          w7 = (call CreateFaceAnchorGroup (call LoadFaceTracker w6))
                 \<lparr>group_visible := Some True\<rparr>;
          w8 = w7\<lparr>scene_children := scene_children w7 @ [FaceTrackerGroup]\<rparr>;
          w9 = call LoadTexture (call LoadFaceMesh w8);
          w10 = w9\<lparr>group_children := group_children w9 @ [FaceMeshMesh]\<rparr>;
          w11 = (call AddLights w10)
                  \<lparr>scene_children := scene_children w10 @ [DirectionalLight, AmbientLight]\<rparr>;
          w12 = bind_handler OnNotVisible (bind_handler OnVisible w11)
      in w12)"

text \<open>The whole script: the compatibility check of lines 17 to 26, then the setup, then
  \<open>initRecorder()\<close> (line 164) and the first \<open>render()\<close> (line 184). The \<open>throw\<close> ends the
  script; what was done before it stays done. Before the check the script only computes
  the URL of an asset (line 11), which calls nothing.\<close>

definition main :: "bool \<Rightarrow> error option \<times> 'a world" where
  "main browserIncompatible =
     (if browserIncompatible
      then (Some (Error ''Unsupported browser''), call BrowserIncompatibleUI init_page)
      else (None, render (initRecorder (setup_scene init_page))))"

definition boot :: "bool \<Rightarrow> 'a world" where
  "boot browserIncompatible = snd (main browserIncompatible)"

subsection \<open>The event loop\<close>

text \<open>One event runs one callback to its end. An event for which nothing is registered or
  pending changes nothing.\<close>

fun step :: "'a event \<Rightarrow> 'a world \<Rightarrow> 'a world" where
  "step (PermissionAnswered granted) w =
     (if permission_pending w then permission_then granted (w\<lparr>permission_pending := False\<rparr>)
      else w)"
| "step AnimationFrame w =
     (if 0 < raf_pending w then render (w\<lparr>raf_pending := raf_pending w - 1\<rparr>) else w)"
| "step WindowResized w = (if OnResize \<in> bound w then resize_handler w else w)"
| "step FaceBecameVisible w = (if OnVisible \<in> bound w then onVisible_handler w else w)"
| "step FaceBecameNotVisible w = (if OnNotVisible \<in> bound w then onNotVisible_handler w else w)"
| "step (TrackerPublished lms) w = w\<lparr>landmarks := lms\<rparr>"
| "step RecorderCreated w =
     (if recorder_pending w then initRecorder_resume (w\<lparr>recorder_pending := False\<rparr>) else w)"
| "step Clicked w = (if OnClick \<in> bound w then click_handler w else w)"
| "step RecorderStarted w =
     (if 0 < onStart_pending (recorder w) \<and> OnStart \<in> bound w
      then onStart_handler
             (w\<lparr>recorder := (recorder w)\<lparr>onStart_pending := onStart_pending (recorder w) - 1\<rparr>\<rparr>)
      else w)"
| "step RecorderCompleted w =
     (if 0 < onComplete_pending (recorder w) \<and> OnComplete \<in> bound w
      then onComplete_handler
             (w\<lparr>recorder := (recorder w)\<lparr>onComplete_pending := onComplete_pending (recorder w) - 1\<rparr>\<rparr>)
      else w)"
| "step DataURLResolved w =
     (if 0 < dataurl_pending w then onComplete_resume (w\<lparr>dataurl_pending := dataurl_pending w - 1\<rparr>)
      else w)"
| "step RecorderSampled w =
     (case surface w of
        None \<Rightarrow> w
      | Some f \<Rightarrow>
          if session (recorder w) = Recording
          then w\<lparr>recorder := (recorder w)\<lparr>captured := captured (recorder w) @ [f]\<rparr>\<rparr>
          else w)"

definition run :: "'a event list \<Rightarrow> 'a world \<Rightarrow> 'a world" where
  "run es w = fold step es w"

subsection \<open>Observations\<close>

definition ticks :: "'a world \<Rightarrow> nat" where
  "ticks w = count_list (trace w) UpdateFrame"

definition tick_steps :: "action list" where
  "tick_steps = [UpdateFrame, UpdateGeometry, RenderScene, RequestAnimationFrame]"

fun is_tick_step :: "action \<Rightarrow> bool" where
  "is_tick_step UpdateFrame = True"
| "is_tick_step UpdateGeometry = True"
| "is_tick_step RenderScene = True"
| "is_tick_step RequestAnimationFrame = True"
| "is_tick_step _ = False"

fun is_visibility_event :: "'a event \<Rightarrow> bool" where
  "is_visibility_event FaceBecameVisible = True"
| "is_visibility_event FaceBecameNotVisible = True"
| "is_visibility_event _ = False"

fun is_recorder_event :: "'a event \<Rightarrow> bool" where
  "is_recorder_event RecorderCreated = True"
| "is_recorder_event Clicked = True"
| "is_recorder_event RecorderStarted = True"
| "is_recorder_event RecorderCompleted = True"
| "is_recorder_event DataURLResolved = True"
| "is_recorder_event RecorderSampled = True"
| "is_recorder_event _ = False"

fun is_recorder_action :: "action \<Rightarrow> bool" where
  "is_recorder_action (SetButtonText _) = True"
| "is_recorder_action RecorderStart = True"
| "is_recorder_action RecorderStop = True"
| "is_recorder_action AsDataURL = True"
| "is_recorder_action WebGlSnapshot = True"
| "is_recorder_action _ = False"

fun is_recorder_call :: "action \<Rightarrow> bool" where
  "is_recorder_call RecorderStart = True"
| "is_recorder_call RecorderStop = True"
| "is_recorder_call _ = False"

subsection \<open>Predicates used in the proofs\<close>

text \<open>The overlay is in the picture: the group is visible and the last frame drawn holds the
  group and the face mesh.\<close>

definition overlay_shown :: "'a world \<Rightarrow> bool" where
  "overlay_shown w \<longleftrightarrow>
     group_visible w = Some True
     \<and> scene_children w = [FaceTrackerGroup, DirectionalLight, AmbientLight]
     \<and> group_children w = [FaceMeshMesh]
     \<and> map_option drawn (surface w) =
         Some [FaceTrackerGroup, FaceMeshMesh, DirectionalLight, AmbientLight]"

text \<open>Nothing is registered and nothing is pending: no callback can ever run.\<close>

definition inert :: "'a world \<Rightarrow> bool" where
  "inert w \<longleftrightarrow>
     bound w = {} \<and> \<not> permission_pending w \<and> \<not> recorder_pending w
     \<and> dataurl_pending w = 0 \<and> raf_pending w = 0"

text \<open>The permission request is still unanswered, or the permission-denied dialog has been
  shown.\<close>

definition asked_or_denied :: "'a world \<Rightarrow> bool" where
  "asked_or_denied w \<longleftrightarrow> permission_pending w \<or> PermissionDeniedUI \<in> set (trace w)"

text \<open>The states that the \<open>recording\<close> flag, the recorder's session and the events in flight
  can be in together: idle; started with \<open>onStart\<close> in flight; recording; stopped with
  \<open>onComplete\<close> in flight; completed with the data URL awaited.\<close>

definition protocol_ok :: "'a world \<Rightarrow> bool" where
  "protocol_ok w \<longleftrightarrow>
     (recorder_pending w \<longrightarrow>
        OnClick \<notin> bound w \<and> session (recorder w) = Idle \<and> recording w \<noteq> Some True)
     \<and> (if recording w = Some True
        then onStart_pending (recorder w) = 0
             \<and> (if session (recorder w) = Recording
                then onComplete_pending (recorder w) = 0 \<and> dataurl_pending w = 0
                else onComplete_pending (recorder w) + dataurl_pending w = 1)
        else onComplete_pending (recorder w) = 0 \<and> dataurl_pending w = 0
             \<and> (if session (recorder w) = Recording
                then onStart_pending (recorder w) = 1
                else onStart_pending (recorder w) = 0))"

text \<open>Two page states that differ at most in what belongs to the recorder: the \<open>recording\<close>
  flag, the recorder, its callbacks and promises, and the calls made for it.\<close>

definition loop_equiv :: "'a world \<Rightarrow> 'a world \<Rightarrow> bool" where
  "loop_equiv w w' \<longleftrightarrow>
     filter (\<lambda>a. \<not> is_recorder_action a) (trace w) = filter (\<lambda>a. \<not> is_recorder_action a) (trace w')
     \<and> (OnResize \<in> bound w) = (OnResize \<in> bound w')
     \<and> (OnVisible \<in> bound w) = (OnVisible \<in> bound w')
     \<and> (OnNotVisible \<in> bound w) = (OnNotVisible \<in> bound w')
     \<and> permission_pending w = permission_pending w'
     \<and> raf_pending w = raf_pending w'
     \<and> scene_children w = scene_children w'
     \<and> group_children w = group_children w'
     \<and> group_visible w = group_visible w'
     \<and> landmarks w = landmarks w'
     \<and> positions w = positions w'
     \<and> surface w = surface w'"

section \<open>Properties\<close>

subsection \<open>Helper lemmas\<close>

lemmas handler_defs = call_def bind_handler_def render_def permission_then_def
  onVisible_handler_def onNotVisible_handler_def resize_handler_def initRecorder_def
  initRecorder_resume_def onStart_handler_def onComplete_handler_def onComplete_resume_def
  click_handler_def

lemma deformer_copy: "updateFromFaceAnchorGroup lms buf = lms"
  by (induction lms arbitrary: buf) simp_all

lemma run_Nil: "run [] w = w"
  by (simp add: run_def)

lemma run_Cons: "run (e # es) w = run es (step e w)"
  by (simp add: run_def)

lemma run_snoc: "run (es @ [e]) w = step e (run es w)"
  by (simp add: run_def)

lemma trace_render: "trace (render w) = trace w @ tick_steps"
  by (simp add: render_def call_def tick_steps_def Let_def)

lemma step_raf_pending: "raf_pending (step e w) = raf_pending w"
  by (cases e) (simp_all add: handler_defs Let_def split: option.splits)

lemma run_raf_pending: "raf_pending (run es w) = raf_pending w"
  by (induction es arbitrary: w) (simp_all add: run_Nil run_Cons step_raf_pending)

lemma boot_raf_pending: "raf_pending (boot False) = Suc 0"
  by (simp add: boot_def main_def setup_scene_def init_page_def handler_defs Let_def)

lemma boot_trace:
  "trace (boot False) =
     [CreateLoadingManager, CreateRenderer, CreateScene, SetSize, CreateCamera,
      PermissionRequestUI, GlContextSet, LoadFaceTracker, CreateFaceAnchorGroup, LoadFaceMesh,
      LoadTexture, AddLights, CreateVideoRecorder] @ tick_steps"
  by (simp add: boot_def main_def setup_scene_def init_page_def handler_defs Let_def tick_steps_def)

lemma step_tick_trace:
  "filter is_tick_step (trace (step e w)) =
     filter is_tick_step (trace w) @ (if e = AnimationFrame \<and> 0 < raf_pending w then tick_steps else [])"
  by (cases e) (simp_all add: handler_defs Let_def tick_steps_def split: option.splits)

lemma concat_replicate_comm: "concat (replicate n xs) @ xs = xs @ concat (replicate n xs)"
  by (induction n) simp_all

lemma run_tick_trace:
  "0 < raf_pending w \<Longrightarrow>
   filter is_tick_step (trace (run es w)) =
     filter is_tick_step (trace w) @ concat (replicate (count_list es AnimationFrame) tick_steps)"
proof (induction es rule: rev_induct)
  case Nil
  then show ?case by (simp add: run_Nil)
next
  case (snoc e es)
  then show ?case
    by (simp add: run_snoc step_tick_trace run_raf_pending concat_replicate_comm)
qed


lemma step_count_geometry:
  "count_list (trace (step e w)) UpdateGeometry =
     count_list (trace w) UpdateGeometry + (if e = AnimationFrame \<and> 0 < raf_pending w then 1 else 0)"
  by (cases e) (simp_all add: handler_defs Let_def split: option.splits)

lemma run_count_geometry:
  "0 < raf_pending w \<Longrightarrow>
   count_list (trace (run es w)) UpdateGeometry =
     count_list (trace w) UpdateGeometry + count_list es AnimationFrame"
  by (induction es rule: rev_induct)
     (simp_all add: run_Nil run_snoc step_count_geometry run_raf_pending)

lemma step_ticks:
  "ticks (step e w) = ticks w + (if e = AnimationFrame \<and> 0 < raf_pending w then 1 else 0)"
  by (cases e) (simp_all add: ticks_def handler_defs Let_def split: option.splits)

lemma run_ticks:
  "0 < raf_pending w \<Longrightarrow> ticks (run es w) = ticks w + count_list es AnimationFrame"
  by (induction es rule: rev_induct)
     (simp_all add: run_Nil run_snoc step_ticks run_raf_pending)

lemma boot_ticks: "ticks (boot False) = Suc 0"
  by (simp add: ticks_def boot_trace tick_steps_def)

text \<open>
  Claim C1. Every tick of the render loop does exactly four things, each once and in this
  order: \<open>camera.updateFrame\<close>, the update of the face geometry from the tracker's current
  landmarks, the draw of the scene (the frame drawn holds the positions just written), and
  the request of the next animation frame. In every run of the page from a compatible
  browser, the tick steps in the log are whole ticks one after the other, one at startup
  and one per animation frame, and exactly one animation-frame request is pending.
\<close>

theorem render_tick_order:
  "trace (render w) = trace w @ [UpdateFrame, UpdateGeometry, RenderScene, RequestAnimationFrame]
   \<and> positions (render w) = updateFromFaceAnchorGroup (landmarks w) (positions w)
   \<and> map_option vertices (surface (render w)) = Some (positions (render w))
   \<and> raf_pending (render w) = Suc (raf_pending w)
   \<and> filter is_tick_step (trace (run es (boot False))) =
       concat (replicate (Suc (count_list es AnimationFrame))
                 [UpdateFrame, UpdateGeometry, RenderScene, RequestAnimationFrame])
   \<and> raf_pending (run es (boot False)) = 1"
proof -
  have one: "trace (render w) = trace w @ [UpdateFrame, UpdateGeometry, RenderScene, RequestAnimationFrame]"
    by (simp add: trace_render tick_steps_def)
  have two: "positions (render w) = updateFromFaceAnchorGroup (landmarks w) (positions w)"
    by (simp add: render_def call_def Let_def)
  have three: "map_option vertices (surface (render w)) = Some (positions (render w))"
    by (simp add: render_def call_def Let_def)
  have four: "raf_pending (render w) = Suc (raf_pending w)"
    by (simp add: render_def call_def Let_def)
  have five: "filter is_tick_step (trace (run es (boot False))) =
       concat (replicate (Suc (count_list es AnimationFrame))
                 [UpdateFrame, UpdateGeometry, RenderScene, RequestAnimationFrame])"
    using run_tick_trace [of "boot False" es]
    by (simp add: boot_raf_pending boot_trace tick_steps_def)
  have six: "raf_pending (run es (boot False)) = 1"
    by (simp add: run_raf_pending boot_raf_pending)
  from one two three four five six show ?thesis by blast
qed

text \<open>
  Claim C5. A tick rewrites the geometry from the tracker's landmarks whatever the value of
  the group's \<open>visible\<close> flag, and leaves the flag alone; the \<open>onNotVisible\<close> callback leaves
  the landmarks alone, so the tick after it deforms with the last landmarks published; in
  every run the number of geometry updates is the number of ticks, whatever visibility
  events occurred.
\<close>

theorem deformation_regardless_of_visibility:
  "positions (render (w\<lparr>group_visible := v\<rparr>)) = updateFromFaceAnchorGroup (landmarks w) (positions w)
   \<and> trace (render (w\<lparr>group_visible := v\<rparr>)) = trace w @ tick_steps
   \<and> group_visible (render (w\<lparr>group_visible := v\<rparr>)) = v
   \<and> landmarks (step FaceBecameNotVisible w) = landmarks w
   \<and> positions (render (step FaceBecameNotVisible w)) =
       updateFromFaceAnchorGroup (landmarks w) (positions w)
   \<and> count_list (trace (run es (boot False))) UpdateGeometry = Suc (count_list es AnimationFrame)"
proof -
  have a: "positions (render (w\<lparr>group_visible := v\<rparr>)) =
             updateFromFaceAnchorGroup (landmarks w) (positions w)"
    by (simp add: render_def call_def Let_def)
  have b: "trace (render (w\<lparr>group_visible := v\<rparr>)) = trace w @ tick_steps"
    by (simp add: trace_render)
  have c: "group_visible (render (w\<lparr>group_visible := v\<rparr>)) = v"
    by (simp add: render_def call_def Let_def)
  have d: "landmarks (step FaceBecameNotVisible w) = landmarks w"
    by (simp add: onNotVisible_handler_def)
  have e: "positions (render (step FaceBecameNotVisible w)) =
             updateFromFaceAnchorGroup (landmarks w) (positions w)"
    by (simp add: render_def call_def Let_def onNotVisible_handler_def)
  have f: "count_list (trace (run es (boot False))) UpdateGeometry =
                  Suc (count_list es AnimationFrame)"
    using run_count_geometry [of "boot False" es]
    by (simp add: boot_raf_pending boot_trace tick_steps_def)
  from a b c d e f show ?thesis by blast
qed

lemma funpow_deformer:
  "(updateFromFaceAnchorGroup lms ^^ Suc n) buf = updateFromFaceAnchorGroup lms buf"
  by (induction n) (simp_all add: deformer_copy)

text \<open>
  Claim C6. The Mesh Deformer is idempotent: applied twice, or any number of times, to the
  same landmark set it leaves the same vertex positions as applied once, and two ticks in
  a row with unchanged landmarks leave the same positions.
\<close>

theorem deformer_idempotent:
  "updateFromFaceAnchorGroup lms (updateFromFaceAnchorGroup lms buf) =
     updateFromFaceAnchorGroup lms buf
   \<and> (updateFromFaceAnchorGroup lms ^^ Suc n) buf = updateFromFaceAnchorGroup lms buf
   \<and> positions (render (render w)) = positions (render w)"
proof -
  have a: "updateFromFaceAnchorGroup lms (updateFromFaceAnchorGroup lms buf) =
             updateFromFaceAnchorGroup lms buf"
    by (simp add: deformer_copy)
  have b: "(updateFromFaceAnchorGroup lms ^^ Suc n) buf = updateFromFaceAnchorGroup lms buf"
    by (rule funpow_deformer)
  have c: "positions (render (render w)) = positions (render w)"
    by (simp add: render_def call_def Let_def deformer_copy)
  from a b c show ?thesis by blast
qed


lemma step_bound_mono: "h \<in> bound w \<Longrightarrow> h \<in> bound (step e w)"
  by (cases e) (simp_all add: handler_defs Let_def split: option.splits)

lemma run_bound_mono: "h \<in> bound w \<Longrightarrow> h \<in> bound (run es w)"
  by (induction es arbitrary: w) (simp_all add: run_Nil run_Cons step_bound_mono)

lemma boot_bound: "bound (boot False) = {OnResize, OnVisible, OnNotVisible}"
  by (auto simp add: boot_def main_def setup_scene_def init_page_def handler_defs Let_def)

lemma step_group_visible_other:
  "\<not> is_visibility_event e \<Longrightarrow> group_visible (step e w) = group_visible w"
  by (cases e) (simp_all add: handler_defs Let_def split: option.splits)

text \<open>
  Claim C4. The visibility callbacks are a last-event-wins binding: after any sequence of
  events that holds at least one visibility event, the group's \<open>visible\<close> flag is true if the
  last visibility event was \<open>onVisible\<close> and false if it was \<open>onNotVisible\<close>.
\<close>

theorem visibility_last_event_wins:
  assumes "filter is_visibility_event es \<noteq> []"
  shows "group_visible (run es (boot False)) =
           Some (last (filter is_visibility_event es) = FaceBecameVisible)"
  using assms
proof (induction es rule: rev_induct)
  case Nil
  then show ?case by simp
next
  case (snoc e es)
  have v: "OnVisible \<in> bound (run es (boot False))"
    by (rule run_bound_mono) (simp add: boot_bound)
  have n: "OnNotVisible \<in> bound (run es (boot False))"
    by (rule run_bound_mono) (simp add: boot_bound)
  show ?case
  proof (cases "is_visibility_event e")
    case True
    then have "e = FaceBecameVisible \<or> e = FaceBecameNotVisible"
      by (cases e) simp_all
    then show ?thesis
      using v n by (auto simp add: run_snoc onVisible_handler_def onNotVisible_handler_def)
  next
    case False
    with snoc show ?thesis
      by (simp add: run_snoc step_group_visible_other)
  qed
qed

theorem visibility_last_event_wins_witness:
  "filter is_visibility_event [FaceBecameNotVisible, FaceBecameVisible :: nat event] \<noteq> []
   \<and> group_visible (run [FaceBecameNotVisible, FaceBecameVisible] (boot False :: nat world)) = Some True"
  using visibility_last_event_wins [of "[FaceBecameNotVisible, FaceBecameVisible :: nat event]"]
  by simp

lemma boot_overlay_shown: "overlay_shown (boot False)"
  by (simp add: overlay_shown_def boot_def main_def setup_scene_def init_page_def handler_defs
      Let_def drawn_objects_def)

lemma step_overlay_shown:
  "\<not> is_visibility_event e \<Longrightarrow> overlay_shown w \<Longrightarrow> overlay_shown (step e w)"
  by (cases e)
     (auto simp add: overlay_shown_def handler_defs Let_def drawn_objects_def split: option.splits)

lemma run_overlay_shown:
  "filter is_visibility_event es = [] \<Longrightarrow> overlay_shown w \<Longrightarrow> overlay_shown (run es w)"
proof (induction es arbitrary: w)
  case Nil
  then show ?case by (simp add: run_Nil)
next
  case (Cons e es)
  from Cons.prems(1) have e: "\<not> is_visibility_event e" and es: "filter is_visibility_event es = []"
    by (auto split: if_splits)
  show ?case
    by (simp add: run_Cons Cons.IH [OF es step_overlay_shown [OF e Cons.prems(2)]])
qed

text \<open>
  Claim C9. As long as no visibility event has fired, the face-anchor group is visible and
  the frame on the canvas holds the group and its face mesh.
\<close>

theorem overlay_visible_before_first_visibility_event:
  assumes "filter is_visibility_event es = []"
  shows "group_visible (run es (boot False)) = Some True
         \<and> map_option drawn (surface (run es (boot False))) =
             Some [FaceTrackerGroup, FaceMeshMesh, DirectionalLight, AmbientLight]"
  using run_overlay_shown [OF assms boot_overlay_shown]
  by (simp add: overlay_shown_def)

theorem overlay_visible_before_first_visibility_event_witness:
  "filter is_visibility_event [AnimationFrame, TrackerPublished [], AnimationFrame :: nat event] = []
   \<and> group_visible (run [AnimationFrame, TrackerPublished [], AnimationFrame] (boot False :: nat world))
       = Some True
   \<and> map_option drawn
       (surface (run [AnimationFrame, TrackerPublished [], AnimationFrame] (boot False :: nat world))) =
         Some [FaceTrackerGroup, FaceMeshMesh, DirectionalLight, AmbientLight]"
  using overlay_visible_before_first_visibility_event
          [of "[AnimationFrame, TrackerPublished [], AnimationFrame :: nat event]"]
  by simp

lemma boot_inert: "inert (boot True)"
  by (simp add: inert_def boot_def main_def init_page_def call_def)

lemma step_inert: "inert w \<Longrightarrow> inert (step e w) \<and> trace (step e w) = trace w"
  by (cases e) (simp_all add: inert_def split: option.splits)

lemma run_inert: "inert w \<Longrightarrow> inert (run es w) \<and> trace (run es w) = trace w"
  by (induction es arbitrary: w) (simp_all add: run_Nil run_Cons step_inert)

text \<open>
  Claim C8. In an incompatible browser the script shows the incompatibility dialog and
  throws: nothing else has been called, no callback is registered, no scene object, group
  or animation-frame request exists, and whatever events follow, nothing more is ever
  called and no tick runs.
\<close>

theorem unsupported_browser_aborts:
  "fst (main True :: error option \<times> 'a world) = Some (Error ''Unsupported browser'')
   \<and> trace (boot True :: 'a world) = [BrowserIncompatibleUI]
   \<and> bound (boot True :: 'a world) = {}
   \<and> raf_pending (boot True :: 'a world) = 0
   \<and> group_visible (boot True :: 'a world) = None
   \<and> scene_children (boot True :: 'a world) = []
   \<and> trace (run es (boot True :: 'a world)) = [BrowserIncompatibleUI]
   \<and> ticks (run es (boot True :: 'a world)) = 0"
proof -
  have t: "trace (run es (boot True :: 'a world)) = trace (boot True :: 'a world)"
    using run_inert [OF boot_inert] by blast
  have b: "trace (boot True :: 'a world) = [BrowserIncompatibleUI]"
    by (simp add: boot_def main_def init_page_def call_def)
  show ?thesis
    using t b by (simp add: ticks_def) (simp add: boot_def main_def init_page_def call_def)
qed

lemma step_trace_mono: "a \<in> set (trace w) \<Longrightarrow> a \<in> set (trace (step e w))"
  by (cases e) (simp_all add: handler_defs Let_def split: option.splits)

lemma step_no_camera_start:
  "e \<noteq> PermissionAnswered True \<Longrightarrow> CameraStart \<notin> set (trace w) \<Longrightarrow>
   CameraStart \<notin> set (trace (step e w))"
  by (cases e) (simp_all add: handler_defs Let_def tick_steps_def split: option.splits)

lemma run_no_camera_start:
  "PermissionAnswered True \<notin> set es \<Longrightarrow> CameraStart \<notin> set (trace w) \<Longrightarrow>
   CameraStart \<notin> set (trace (run es w))"
proof (induction es arbitrary: w)
  case Nil
  then show ?case by (simp add: run_Nil)
next
  case (Cons e es)
  from Cons.prems have "e \<noteq> PermissionAnswered True" and "PermissionAnswered True \<notin> set es"
    by auto
  with Cons show ?case
    by (simp add: run_Cons step_no_camera_start)
qed

lemma step_asked_or_denied:
  "e \<noteq> PermissionAnswered True \<Longrightarrow> asked_or_denied w \<Longrightarrow> asked_or_denied (step e w)"
  by (cases e) (auto simp add: asked_or_denied_def handler_defs Let_def split: option.splits)

lemma step_denied:
  "asked_or_denied w \<Longrightarrow> PermissionDeniedUI \<in> set (trace (step (PermissionAnswered False) w))"
  by (auto simp add: asked_or_denied_def handler_defs)

lemma run_denied:
  "PermissionAnswered True \<notin> set es \<Longrightarrow> asked_or_denied w \<Longrightarrow>
   asked_or_denied (run es w)
   \<and> (PermissionAnswered False \<in> set es \<longrightarrow> PermissionDeniedUI \<in> set (trace (run es w)))"
proof (induction es rule: rev_induct)
  case Nil
  then show ?case by (simp add: run_Nil)
next
  case (snoc e es)
  then have e: "e \<noteq> PermissionAnswered True"
    and ih: "asked_or_denied (run es w)"
    and ih2: "PermissionAnswered False \<in> set es \<longrightarrow> PermissionDeniedUI \<in> set (trace (run es w))"
    by auto
  show ?case
    using step_asked_or_denied [OF e ih] step_denied [OF ih] ih2
    by (auto simp add: run_snoc step_trace_mono)
qed

lemma boot_asked: "asked_or_denied (boot False)"
  by (simp add: asked_or_denied_def boot_def main_def setup_scene_def init_page_def handler_defs Let_def)

lemma boot_no_camera_start: "CameraStart \<notin> set (trace (boot False))"
  by (simp add: boot_trace tick_steps_def)

text \<open>
  Claim C2, as stated, fails: the script calls \<open>render()\<close> at its end whatever the answer to
  the permission request. Here the user declines, the permission-denied dialog is shown,
  and the render loop has run two ticks, one at startup and one on the next animation
  frame.
\<close>

theorem permission_denied_loop_still_ticks:
  "PermissionDeniedUI \<in> set (trace (run [PermissionAnswered False, AnimationFrame] (boot False :: nat world)))
   \<and> ticks (run [PermissionAnswered False, AnimationFrame] (boot False :: nat world)) = 2"
  by (simp add: run_def ticks_def boot_def main_def setup_scene_def init_page_def handler_defs Let_def)

text \<open>
  Claim C2, amended. If the user does not grant camera permission, \<open>camera.start\<close> is never
  called, and once the user has declined the permission-denied dialog has been shown; the
  render loop runs all the same, one tick at startup and one per animation frame.
\<close>

theorem permission_denied_never_starts_camera:
  assumes "PermissionAnswered True \<notin> set es"
  shows "CameraStart \<notin> set (trace (run es (boot False)))
         \<and> (PermissionAnswered False \<in> set es \<longrightarrow>
              PermissionDeniedUI \<in> set (trace (run es (boot False))))
         \<and> ticks (run es (boot False)) = Suc (count_list es AnimationFrame)"
proof -
  have a: "CameraStart \<notin> set (trace (run es (boot False)))"
    using run_no_camera_start [OF assms boot_no_camera_start] .
  have b: "PermissionAnswered False \<in> set es \<longrightarrow>
             PermissionDeniedUI \<in> set (trace (run es (boot False)))"
    using run_denied [OF assms boot_asked] by blast
  have c: "ticks (run es (boot False)) = Suc (count_list es AnimationFrame)"
    using run_ticks [of "boot False" es] by (simp add: boot_raf_pending boot_ticks)
  from a b c show ?thesis by blast
qed

theorem permission_denied_never_starts_camera_witness:
  "PermissionAnswered True \<notin> set [PermissionAnswered False, AnimationFrame :: nat event]
   \<and> PermissionAnswered False \<in> set [PermissionAnswered False, AnimationFrame :: nat event]
   \<and> CameraStart \<notin> set (trace (run [PermissionAnswered False, AnimationFrame] (boot False :: nat world)))
   \<and> PermissionDeniedUI \<in> set (trace (run [PermissionAnswered False, AnimationFrame] (boot False :: nat world)))
   \<and> ticks (run [PermissionAnswered False, AnimationFrame] (boot False :: nat world)) = 2"
  using permission_denied_never_starts_camera [of "[PermissionAnswered False, AnimationFrame :: nat event]"]
  by simp

lemma step_recorder_pending: "\<not> recorder_pending w \<Longrightarrow> \<not> recorder_pending (step e w)"
  by (cases e) (simp_all add: handler_defs Let_def split: option.splits)

lemma step_recording_other:
  "e \<noteq> RecorderStarted \<Longrightarrow> e \<noteq> DataURLResolved \<Longrightarrow> \<not> recorder_pending w \<Longrightarrow>
   recording (step e w) = recording w"
  by (cases e) (simp_all add: handler_defs Let_def split: option.splits)

lemma step_recorder_calls:
  "OnClick \<in> bound w \<Longrightarrow>
   filter is_recorder_call (trace (step e w)) =
     filter is_recorder_call (trace w) @
     (if e = Clicked then [if recording w = Some True then RecorderStop else RecorderStart] else [])"
  by (cases e) (simp_all add: handler_defs Let_def split: option.splits)

text \<open>
  Claim C10. The click listener does not write the \<open>recording\<close> flag; the flag changes only
  in the \<open>onStart\<close> callback and in the continuation of the \<open>onComplete\<close> callback. So as
  long as neither of the two runs, the flag keeps its value and every click makes the same
  call: \<open>recorder.start()\<close> again while the flag is not true (also after \<open>start()\<close> was
  called and before \<open>onStart\<close> fires), \<open>recorder.stop()\<close> again while it is true (also after
  \<open>stop()\<close> was called and before \<open>onComplete\<close> fires).
\<close>

theorem click_decision_follows_callback_flag:
  assumes "OnClick \<in> bound w" and "\<not> recorder_pending w"
    and "RecorderStarted \<notin> set es" and "DataURLResolved \<notin> set es"
  shows "recording (click_handler w) = recording w
         \<and> recording (run es w) = recording w
         \<and> filter is_recorder_call (trace (run es w)) =
             filter is_recorder_call (trace w) @
             replicate (count_list es Clicked)
               (if recording w = Some True then RecorderStop else RecorderStart)"
proof -
  have a: "recording (click_handler w) = recording w"
    by (simp add: click_handler_def call_def)
  have "\<not> recorder_pending (run es w) \<and> recording (run es w) = recording w
        \<and> filter is_recorder_call (trace (run es w)) =
             filter is_recorder_call (trace w) @
             replicate (count_list es Clicked)
               (if recording w = Some True then RecorderStop else RecorderStart)"
    using assms(3,4)
  proof (induction es rule: rev_induct)
    case Nil
    then show ?case using assms(2) by (simp add: run_Nil)
  next
    case (snoc e es)
    then have e: "e \<noteq> RecorderStarted" "e \<noteq> DataURLResolved"
      and p: "\<not> recorder_pending (run es w)"
      and r: "recording (run es w) = recording w"
      and t: "filter is_recorder_call (trace (run es w)) =
             filter is_recorder_call (trace w) @
             replicate (count_list es Clicked)
               (if recording w = Some True then RecorderStop else RecorderStart)"
      by auto
    have b: "OnClick \<in> bound (run es w)"
      by (rule run_bound_mono) (rule assms(1))
    show ?case
      using step_recorder_pending [OF p] step_recording_other [OF e p] step_recorder_calls [OF b, of e] r t
      by (simp add: run_snoc replicate_append_same)
  qed
  with a show ?thesis by blast
qed

theorem click_decision_follows_callback_flag_witness:
  "OnClick \<in> bound (run [RecorderCreated, Clicked] (boot False :: nat world))
   \<and> \<not> recorder_pending (run [RecorderCreated, Clicked] (boot False :: nat world))
   \<and> RecorderStarted \<notin> set [Clicked, AnimationFrame, Clicked :: nat event]
   \<and> DataURLResolved \<notin> set [Clicked, AnimationFrame, Clicked :: nat event]
   \<and> filter is_recorder_call
        (trace (run [Clicked, AnimationFrame, Clicked] (run [RecorderCreated, Clicked] (boot False :: nat world))))
       = [RecorderStart, RecorderStart, RecorderStart]"
proof -
  have b: "OnClick \<in> bound (run [RecorderCreated, Clicked] (boot False :: nat world))"
    by (simp add: run_def boot_def main_def setup_scene_def init_page_def handler_defs Let_def)
  have p: "\<not> recorder_pending (run [RecorderCreated, Clicked] (boot False :: nat world))"
    by (simp add: run_def boot_def main_def setup_scene_def init_page_def handler_defs Let_def)
  have r: "recording (run [RecorderCreated, Clicked] (boot False :: nat world)) = Some False"
    by (simp add: run_def boot_def main_def setup_scene_def init_page_def handler_defs Let_def)
  have t: "filter is_recorder_call (trace (run [RecorderCreated, Clicked] (boot False :: nat world)))
             = [RecorderStart]"
    by (simp add: run_def boot_def main_def setup_scene_def init_page_def handler_defs Let_def)
  show ?thesis
    using click_decision_follows_callback_flag
            [OF b p, of "[Clicked, AnimationFrame, Clicked :: nat event]"] b p r t
    by simp
qed

lemma boot_protocol_ok: "protocol_ok (boot False)"
  by (simp add: protocol_ok_def boot_def main_def setup_scene_def init_page_def handler_defs Let_def)

lemma not_Recording: "(s \<noteq> Recording) = (s = Idle)"
  by (cases s) simp_all

lemma step_protocol_ok: "protocol_ok w \<Longrightarrow> protocol_ok (step e w)"
  by (cases e)
     (auto simp add: protocol_ok_def handler_defs Let_def recorder_start_def recorder_stop_def
           not_Recording split: option.splits if_splits)

lemma run_protocol_ok: "protocol_ok w \<Longrightarrow> protocol_ok (run es w)"
  by (induction es arbitrary: w) (simp_all add: run_Nil run_Cons step_protocol_ok)

lemma protocol_ok_onStart: "protocol_ok w \<Longrightarrow> onStart_pending (recorder w) \<le> 1"
  by (auto simp add: protocol_ok_def split: if_splits)

lemma session_cases: "(session r = Idle) \<noteq> (session r = Recording)"
  by (cases "session r") simp_all

text \<open>
  Claim C3. The recording session is either idle or recording, never both; \<open>start\<close> and
  \<open>stop\<close> are idempotent; two \<open>start\<close>s in a row on an idle recorder emit one \<open>onStart\<close>;
  \<open>stop\<close> on an idle recorder changes nothing and so emits no \<open>onComplete\<close>. In every run of
  the page at most one \<open>onStart\<close> is in flight, and a double click on an idle recorder calls
  \<open>recorder.start()\<close> twice and runs the \<open>onStart\<close> callback once.
\<close>

theorem recorder_start_stop_idempotent:
  "(session r = Idle) \<noteq> (session r = Recording)
   \<and> recorder_start (recorder_start r) = recorder_start r
   \<and> recorder_stop (recorder_stop r) = recorder_stop r
   \<and> (session r = Idle \<longrightarrow>
        onStart_pending (recorder_start (recorder_start r)) = Suc (onStart_pending r))
   \<and> (session r = Idle \<longrightarrow> recorder_stop r = r)
   \<and> onStart_pending (recorder (run es (boot False))) \<le> 1
   \<and> (OnClick \<in> bound w \<and> OnStart \<in> bound w \<and> recording w \<noteq> Some True
        \<and> session (recorder w) = Idle \<and> onStart_pending (recorder w) = 0 \<longrightarrow>
        trace (run [Clicked, Clicked, RecorderStarted, RecorderStarted] w) =
          trace w @ [RecorderStart, RecorderStart, SetButtonText ''TAP TO STOP RECORDING''])"
proof -
  have a: "recorder_start (recorder_start r) = recorder_start r"
    by (simp add: recorder_start_def)
  have b: "recorder_stop (recorder_stop r) = recorder_stop r"
    by (simp add: recorder_stop_def)
  have c: "session r = Idle \<longrightarrow>
        onStart_pending (recorder_start (recorder_start r)) = Suc (onStart_pending r)"
    by (simp add: recorder_start_def)
  have d: "session r = Idle \<longrightarrow> recorder_stop r = r"
    by (simp add: recorder_stop_def)
  have e: "onStart_pending (recorder (run es (boot False))) \<le> 1"
    by (rule protocol_ok_onStart) (rule run_protocol_ok [OF boot_protocol_ok])
  have f: "OnClick \<in> bound w \<and> OnStart \<in> bound w \<and> recording w \<noteq> Some True
        \<and> session (recorder w) = Idle \<and> onStart_pending (recorder w) = 0 \<longrightarrow>
        trace (run [Clicked, Clicked, RecorderStarted, RecorderStarted] w) =
          trace w @ [RecorderStart, RecorderStart, SetButtonText ''TAP TO STOP RECORDING'']"
    by (simp add: run_def handler_defs recorder_start_def)
  from session_cases [of r] a b c d e f show ?thesis by blast
qed

theorem recorder_start_stop_idempotent_witness:
  "session (recorder (init_page :: nat world)) = Idle
   \<and> onStart_pending (recorder_start (recorder_start (recorder (init_page :: nat world)))) = 1
   \<and> recorder_stop (recorder (init_page :: nat world)) = recorder init_page
   \<and> OnClick \<in> bound (run [RecorderCreated] (boot False :: nat world))
   \<and> OnStart \<in> bound (run [RecorderCreated] (boot False :: nat world))
   \<and> recording (run [RecorderCreated] (boot False :: nat world)) \<noteq> Some True
   \<and> session (recorder (run [RecorderCreated] (boot False :: nat world))) = Idle
   \<and> onStart_pending (recorder (run [RecorderCreated] (boot False :: nat world))) = 0
   \<and> trace (run [Clicked, Clicked, RecorderStarted, RecorderStarted]
              (run [RecorderCreated] (boot False :: nat world))) =
        trace (run [RecorderCreated] (boot False :: nat world))
          @ [RecorderStart, RecorderStart, SetButtonText ''TAP TO STOP RECORDING'']"
proof -
  have i: "session (recorder (init_page :: nat world)) = Idle"
    and z: "onStart_pending (recorder (init_page :: nat world)) = 0"
    by (simp_all add: init_page_def)
  have h: "OnClick \<in> bound (run [RecorderCreated] (boot False :: nat world))
   \<and> OnStart \<in> bound (run [RecorderCreated] (boot False :: nat world))
   \<and> recording (run [RecorderCreated] (boot False :: nat world)) \<noteq> Some True
   \<and> session (recorder (run [RecorderCreated] (boot False :: nat world))) = Idle
   \<and> onStart_pending (recorder (run [RecorderCreated] (boot False :: nat world))) = 0"
    by (simp add: run_def boot_def main_def setup_scene_def init_page_def handler_defs Let_def)
  show ?thesis
    using recorder_start_stop_idempotent
            [of "recorder (init_page :: nat world)" "[] :: nat event list"
                "run [RecorderCreated] (boot False :: nat world)"] i z h
    by (simp add: recorder_start_def)
qed

lemma loop_equiv_refl: "loop_equiv w w"
  by (simp add: loop_equiv_def)

lemma loop_equiv_trans: "loop_equiv a b \<Longrightarrow> loop_equiv b c \<Longrightarrow> loop_equiv a c"
  by (simp add: loop_equiv_def)

lemma step_recorder_event_equiv: "is_recorder_event e \<Longrightarrow> loop_equiv (step e w) w"
  by (cases e)
     (simp_all add: loop_equiv_def handler_defs Let_def split: option.splits)

lemma step_loop_equiv:
  "\<not> is_recorder_event e \<Longrightarrow> loop_equiv w w' \<Longrightarrow> loop_equiv (step e w) (step e w')"
  by (cases e)
     (simp_all add: loop_equiv_def handler_defs Let_def drawn_objects_def split: option.splits
        cong: if_cong)

lemma run_loop_equiv:
  "loop_equiv w w' \<Longrightarrow>
   loop_equiv (run es w) (run (filter (\<lambda>e. \<not> is_recorder_event e) es) w')"
proof (induction es arbitrary: w w')
  case Nil
  then show ?case by (simp add: run_Nil)
next
  case (Cons e es)
  show ?case
  proof (cases "is_recorder_event e")
    case True
    have "loop_equiv (step e w) w'"
      using loop_equiv_trans [OF step_recorder_event_equiv [OF True] Cons.prems] .
    then show ?thesis using True by (simp add: run_Cons Cons.IH)
  next
    case False
    have "loop_equiv (step e w) (step e w')"
      using step_loop_equiv [OF False Cons.prems] .
    then show ?thesis using False by (simp add: run_Cons Cons.IH)
  qed
qed

lemma count_frames_filter:
  "count_list (filter (\<lambda>e. \<not> is_recorder_event e) es) AnimationFrame = count_list es AnimationFrame"
  by (induction es) auto

text \<open>
  Claim C7. Recording does not show in the render loop: a run of the page and the same run
  with every recorder event left out (recorder creation, clicks, \<open>onStart\<close>, \<open>onComplete\<close>,
  data URL, frame sampling) agree on everything but the recorder's own state: the calls
  made, the pending animation-frame request, the scene, the landmarks, the geometry and
  the frame drawn. Both run the same number of ticks, one at startup and one per animation
  frame, and one tick does the same whatever the recorder's state and the \<open>recording\<close>
  flag.
\<close>

theorem recording_invisible_to_render_loop:
  "loop_equiv (run es (boot False)) (run (filter (\<lambda>e. \<not> is_recorder_event e) es) (boot False))
   \<and> ticks (run es (boot False)) = ticks (run (filter (\<lambda>e. \<not> is_recorder_event e) es) (boot False))
   \<and> ticks (run es (boot False)) = Suc (count_list es AnimationFrame)
   \<and> loop_equiv (render (w\<lparr>recorder := r, recording := f\<rparr>)) (render w)"
proof -
  have a: "loop_equiv (run es (boot False))
             (run (filter (\<lambda>e. \<not> is_recorder_event e) es) (boot False))"
    by (rule run_loop_equiv) (rule loop_equiv_refl)
  have c: "ticks (run es (boot False)) = Suc (count_list es AnimationFrame)"
    using run_ticks [of "boot False" es] by (simp add: boot_raf_pending boot_ticks)
  have b: "ticks (run es (boot False)) =
             ticks (run (filter (\<lambda>e. \<not> is_recorder_event e) es) (boot False))"
    using c run_ticks [of "boot False" "filter (\<lambda>e. \<not> is_recorder_event e) es"]
    by (simp add: boot_raf_pending boot_ticks count_frames_filter)
  have d: "loop_equiv (render (w\<lparr>recorder := r, recording := f\<rparr>)) (render w)"
    by (simp add: loop_equiv_def render_def call_def Let_def drawn_objects_def cong: if_cong)
  from a b c d show ?thesis by blast
qed

end
